theory Spec2Isabelle
  imports Complex_Main
begin

section \<open>Numeric model\<close>

text \<open>
  The two scripts compute with numpy arrays of float64 and complex128 samples. An array
  is modelled as a list of its samples, a float as a real number and a complex sample as
  a complex number, and arithmetic is exact, with these exceptions. A quotient by zero
  is not a number of the model but a marker (\<open>NaN\<close>, \<open>PosInf\<close>, \<open>NegInf\<close>), and a Python
  float divided by zero raises \<open>ZeroDivisionError\<close>. Where a result is floored, and so
  decides how long an array is, it is rounded to float64 first (\<open>fl64\<close>). Where the sign
  of a zero decides a result, in \<open>np.angle\<close>, a float64 is a \<open>signed_float\<close>, which has
  both zeros, the infinities and nan.
\<close>

datatype py_error = ZeroDivisionError | ValueError

datatype np_float = Finite real | PosInf | NegInf | NaN


definition np_divide :: "real \<Rightarrow> real \<Rightarrow> np_float" where
  \<comment> \<open>one element of \<open>a / b\<close> on float arrays, under \<open>np.errstate(divide='ignore', invalid='ignore')\<close>\<close>
  "np_divide a b =
     (if b \<noteq> 0 then Finite (a / b)
      else if a = 0 then NaN
      else if 0 < a then PosInf else NegInf)"

definition np_isnan :: "np_float \<Rightarrow> bool" where
  "np_isnan v = (v = NaN)"


definition np_ones_like :: "'a list \<Rightarrow> np_float list" where
  "np_ones_like a = replicate (length a) (Finite 1)"

definition np_linspace :: "real \<Rightarrow> real \<Rightarrow> nat \<Rightarrow> real list" where
  \<comment> \<open>\<open>np.linspace(start, stop, num)\<close>: \<open>arange(num) * step + start\<close>, the last sample set to \<open>stop\<close>\<close>
  "np_linspace start stop num =
     (let step = (stop - start) / real (num - 1);
          y = map (\<lambda>k. real k * step + start) [0..<num]
      in if 1 < num then y[num - 1 := stop] else y)"

definition np_linspace_open :: "real \<Rightarrow> real \<Rightarrow> nat \<Rightarrow> real list" where
  \<comment> \<open>\<open>np.linspace(start, stop, num, endpoint=False)\<close>\<close>
  "np_linspace_open start stop num =
     (let step = (stop - start) / real num
      in map (\<lambda>k. real k * step + start) [0..<num])"

definition np_log10 :: "real \<Rightarrow> real" where
  "np_log10 x = log 10 x"

definition np_logspace :: "real \<Rightarrow> real \<Rightarrow> nat \<Rightarrow> real list" where
  \<comment> \<open>\<open>np.logspace(start, stop, num)\<close> is \<open>10 ** np.linspace(start, stop, num)\<close>\<close>
  "np_logspace start stop num = map (\<lambda>e. 10 powr e) (np_linspace start stop num)"

definition np_arange :: "int \<Rightarrow> int \<Rightarrow> int list" where
  \<comment> \<open>\<open>np.arange(lo, hi)\<close>: the integers from \<open>lo\<close> up to, not including, \<open>hi\<close>\<close>
  "np_arange lo hi = [lo..hi - 1]"

definition np_diff :: "real list \<Rightarrow> real list" where
  "np_diff x = map (\<lambda>(a, b). b - a) (zip x (tl x))"

definition np_trapz :: "complex list \<Rightarrow> real list \<Rightarrow> complex" where
  \<comment> \<open>\<open>np.trapz(y, x)\<close>: \<open>sum(diff(x) * (y[1:] + y[:-1]) / 2.0)\<close>\<close>
  "np_trapz y x =
     sum_list (map (\<lambda>(d, s). of_real d * s / 2)
       (zip (np_diff x) (map (\<lambda>(a, b). a + b) (zip (tl y) (butlast y)))))"








definition round_half_even :: "real \<Rightarrow> int" where
  \<comment> \<open>the nearest integer, a tie going to the even one\<close>
  "round_half_even x =
     (let f = \<lfloor>x\<rfloor>; r = x - of_int f
      in if r < 1 / 2 then f
         else if 1 / 2 < r then f + 1
         else if even f then f else f + 1)"

definition ulp64 :: "real \<Rightarrow> real" where
  \<comment> \<open>the spacing of the float64 values in the binade of \<open>x\<close>: 53 significant bits\<close>
  "ulp64 x = 2 powr (of_int \<lfloor>log 2 \<bar>x\<bar>\<rfloor> - 52)"

definition fl64 :: "real \<Rightarrow> real" where
  \<comment> \<open>the float64 nearest to \<open>x\<close>, ties to even: what a Python literal denotes and what
      one float64 operation returns for the exact result \<open>x\<close>; no overflow, no subnormals\<close>
  "fl64 x = (if x = 0 then 0 else of_int (round_half_even (x / ulp64 x)) * ulp64 x)"

section \<open>Script one: \<open>dirac_fourier_gui.py\<close>\<close>

subsection \<open>The pulse and its transform\<close>

definition rect :: "real list \<Rightarrow> real \<Rightarrow> real list" where
  \<comment> \<open>\<open>np.where(np.abs(t) <= width/2, 1.0, 0.0)\<close>\<close>
  "rect t width = map (\<lambda>ti. if \<bar>ti\<bar> \<le> width / 2 then 1 else 0) t"

definition dirac_rect :: "real list \<Rightarrow> real \<Rightarrow> py_error + real list" where
  \<comment> \<open>\<open>(1.0/epsilon) * rect(t, epsilon)\<close>; the scalar quotient raises at \<open>epsilon = 0\<close>\<close>
  "dirac_rect t epsilon =
     (if epsilon = 0 then Inl ZeroDivisionError
      else Inr (map (\<lambda>r. (1 / epsilon) * r) (rect t epsilon)))"

definition compute_ft :: "real list \<Rightarrow> real \<Rightarrow> np_float list" where
  "compute_ft f epsilon =
     (if epsilon < 5 / 1000 then np_ones_like f
      else
        let x = map (\<lambda>fi. pi * fi * epsilon) f;
            y = map (\<lambda>xi. np_divide (sin xi) xi) x
        in map (\<lambda>yi. if np_isnan yi then Finite 1 else yi) y)"

subsection \<open>The play button\<close>

text \<open>
  The closures of \<open>main\<close> share the slider, the button label and four \<open>nonlocal\<close>
  variables; the model passes them as one record. A timer is recorded by its interval
  in milliseconds, \<open>None\<close> standing for Python's \<open>None\<close>.
\<close>

record gui_state =
  slider_val :: real
  button_label :: string
  animation_active :: bool
  animation_timer :: "nat option"
  animation_frames :: "real list option"
  current_frame :: nat

definition min_width :: real where
  "min_width = 1 / 1000"

definition max_width :: real where
  "max_width = 2"

definition play_clicked :: "gui_state \<Rightarrow> gui_state" where
  "play_clicked s =
     (if animation_active s then
        s\<lparr>animation_timer := None,
          button_label := ''Play Animation'',
          animation_active := False\<rparr>
      else
        let current_width = slider_val s;
            frames =
              (if current_width \<le> min_width
               then np_logspace (np_log10 max_width) (np_log10 min_width) 100
               else np_logspace (np_log10 current_width) (np_log10 min_width) 100)
        in s\<lparr>button_label := ''Stop Animation'',
             animation_active := True,
             current_frame := 0,
             animation_frames := Some frames,
             animation_timer := Some 50\<rparr>)"

subsection \<open>The top level\<close>

text \<open>
  \<open>main()\<close> either returns or raises; the model takes that outcome as its input. An
  exception is recorded by whether it is an instance of \<open>Exception\<close> (a
  \<open>KeyboardInterrupt\<close> or a \<open>SystemExit\<close> is not) and by its \<open>str\<close>. The handler makes
  five calls of its own before it raises again, and each of them can raise: the model
  takes the outcome of each as its input as well (\<open>None\<close> for a call that returns,
  \<open>Some x\<close> for one that raises \<open>x\<close>), and records the Tk calls that have returned, in
  order.
\<close>

datatype py_exception = PyException (is_Exception: bool) (str_of: string)

datatype tk_call = Tk | Withdraw | ShowError string string

record handler_calls =
  import_tkinter :: "py_exception option"
  import_messagebox :: "py_exception option"
  tk_Tk :: "py_exception option"
  root_withdraw :: "py_exception option"
  messagebox_showerror :: "py_exception option"

definition error_dialog :: "py_exception \<Rightarrow> tk_call" where
  \<comment> \<open>\<open>messagebox.showerror("Error", f"An error occurred: {str(e)}\n\nPlease report this issue.")\<close>\<close>
  "error_dialog e =
     ShowError ''Error''
       (''An error occurred: '' @ str_of e @ [CHR 0x0A, CHR 0x0A] @ ''Please report this issue.'')"

definition except_handler ::
  "handler_calls \<Rightarrow> py_exception \<Rightarrow> tk_call list \<times> (py_exception + unit)" where
  \<comment> \<open>the body of \<open>except Exception as e\<close>, statement by statement\<close>
  "except_handler env e =
     (case import_tkinter env of Some x \<Rightarrow> ([], Inl x) | None \<Rightarrow>
     (case import_messagebox env of Some x \<Rightarrow> ([], Inl x) | None \<Rightarrow>
     (case tk_Tk env of Some x \<Rightarrow> ([], Inl x) | None \<Rightarrow>
     (case root_withdraw env of Some x \<Rightarrow> ([Tk], Inl x) | None \<Rightarrow>
     (case messagebox_showerror env of Some x \<Rightarrow> ([Tk, Withdraw], Inl x) | None \<Rightarrow>
        ([Tk, Withdraw, error_dialog e], Inl e))))))"

definition run_dirac_fourier_gui ::
  "handler_calls \<Rightarrow> (py_exception + unit) \<Rightarrow> tk_call list \<times> (py_exception + unit)" where
  \<comment> \<open>the block under \<open>if __name__ == "__main__"\<close>: \<open>try: main()\<close>, \<open>except Exception as e\<close>\<close>
  "run_dirac_fourier_gui env main_outcome =
     (case main_outcome of
        Inr u \<Rightarrow> ([], Inr u)
      | Inl e \<Rightarrow> if is_Exception e then except_handler env e else ([], Inl e))"

section \<open>Script two: \<open>fourier_limit.py\<close>\<close>

definition T1 :: real where
  "T1 = 1"

definition fourier_coefficient :: "real \<Rightarrow> real list \<Rightarrow> complex list \<Rightarrow> int \<Rightarrow> complex" where
  \<comment> \<open>the body of the loop \<open>for n in n_vals\<close>: the value appended to \<open>Cn\<close>\<close>
  "fourier_coefficient T t_int x_int n =
     (let exp_term = map (\<lambda>ti. exp (- \<i> * 2 * of_real pi
                        * of_real (real_of_int n / T) * of_real ti)) t_int;
          integral = np_trapz (map (\<lambda>(a, b). a * b) (zip x_int exp_term)) t_int
      in of_real (1 / T) * integral)"

definition sample_times :: "real \<Rightarrow> real list" where
  \<comment> \<open>\<open>t_int\<close>: \<open>N = 10001\<close> samples of one period\<close>
  "sample_times T = np_linspace_open 0 T 10001"

definition sample_values :: "real \<Rightarrow> complex list" where
  \<comment> \<open>\<open>x_int\<close>: the pulse at the samples\<close>
  "sample_values T = map (\<lambda>ti. if ti < T1 then 1 else 0) (sample_times T)"

definition compute_fourier_series :: "real \<Rightarrow> real \<Rightarrow> py_error + real list \<times> complex list" where
  \<comment> \<open>the arguments are float64 values: a real argument stands for the float64 nearest
      to it, as a Python literal does. The product that is floored and the quotients
      returned as frequencies are rounded as float64 operations round them. Every
      quotient has the divisor \<open>T\<close>; the scalar \<open>1.0 / T\<close> raises at \<open>T = 0\<close>\<close>
  "compute_fourier_series T_arg f_max_arg =
     (let T = fl64 T_arg;
          f_max = fl64 f_max_arg;
          t_int = sample_times T;
          x_int = sample_values T;
          n_max = \<lfloor>fl64 (f_max * T)\<rfloor>;
          n_vals = np_arange (- n_max) (n_max + 1);
          fn = map (\<lambda>n. fl64 (real_of_int n / T)) n_vals;
          Cn = map (fourier_coefficient T t_int x_int) n_vals
      in if T = 0 then Inl ZeroDivisionError else Inr (fn, Cn))"






definition run_fourier_limit ::
  "(py_exception + unit) \<Rightarrow> tk_call list \<times> (py_exception + unit)" where
  \<comment> \<open>the module body runs under no \<open>try\<close>: its outcome is the script's\<close>
  "run_fourier_limit body_outcome = ([], body_outcome)"

section \<open>Properties\<close>

subsection \<open>Auxiliary facts\<close>




lemma np_linspace_nth:
  assumes "1 < num" "k < num"
  shows "np_linspace a b num ! k = a + real k * ((b - a) / real (num - 1))"
proof (cases "k = num - 1")
  case True
  have "real (num - 1) \<noteq> 0" using assms(1) by simp
  then have "a + real (num - 1) * ((b - a) / real (num - 1)) = b" by simp
  with True assms show ?thesis by (simp add: np_linspace_def Let_def)
next
  case False
  with assms show ?thesis by (simp add: np_linspace_def Let_def)
qed

lemma np_linspace_length: "length (np_linspace a b num) = num"
  by (simp add: np_linspace_def Let_def)

lemma np_linspace_eq:
  assumes "1 < num"
  shows "np_linspace a b num = map (\<lambda>k. a + real k * ((b - a) / real (num - 1))) [0..<num]"
proof (rule nth_equalityI)
  show "length (np_linspace a b num)
          = length (map (\<lambda>k. a + real k * ((b - a) / real (num - 1))) [0..<num])"
    by (simp add: np_linspace_length)
next
  fix i
  assume "i < length (np_linspace a b num)"
  then have i: "i < num" by (simp add: np_linspace_length)
  from np_linspace_nth [OF assms i] i
  show "np_linspace a b num ! i
          = map (\<lambda>k. a + real k * ((b - a) / real (num - 1))) [0..<num] ! i"
    by simp
qed

lemma np_linspace_first: "1 < num \<Longrightarrow> np_linspace a b num ! 0 = a"
  by (simp add: np_linspace_def Let_def nth_list_update)

lemma np_linspace_last: "1 < num \<Longrightarrow> np_linspace a b num ! (num - 1) = b"
  by (simp add: np_linspace_def Let_def)

lemma grid_between:
  fixes a b :: real
  assumes "b \<le> a" "1 < num" "k < num"
  shows "b \<le> a + real k * ((b - a) / real (num - 1))
         \<and> a + real k * ((b - a) / real (num - 1)) \<le> a"
proof -
  define n where "n = real (num - 1)"
  define c where "c = real k / n"
  define d where "d = c * (a - b)"
  define e where "e = real k * ((b - a) / n)"
  have n: "0 < n" using assms(2) by (simp add: n_def)
  have "real k \<le> n" using assms(3) by (simp add: n_def)
  with n have c1: "c \<le> 1" by (simp add: c_def)
  have c0: "0 \<le> c" using n by (simp add: c_def)
  have "c * (a - b) \<le> 1 * (a - b)"
    using c1 assms(1) by (intro mult_right_mono) simp_all
  then have d1: "d \<le> a - b" by (simp add: d_def)
  have d0: "0 \<le> d"
    using c0 assms(1) by (simp add: d_def)
  have "b - a = - (a - b)" by simp
  then have ed: "e = - d"
    unfolding e_def d_def c_def
    by (simp only: times_divide_eq_left times_divide_eq_right mult_minus_right minus_divide_left)
  from d1 d0 ed have "b \<le> a + e \<and> a + e \<le> a" by linarith
  then show ?thesis by (simp only: e_def n_def)
qed

lemma np_logspace_eq:
  assumes "1 < num"
  shows "np_logspace a b num
           = map (\<lambda>k. 10 powr (a + real k * ((b - a) / real (num - 1)))) [0..<num]"
  by (simp add: np_logspace_def np_linspace_eq [OF assms] comp_def)

lemma np_logspace_between:
  assumes "b \<le> a" "1 < num" "x \<in> set (np_logspace a b num)"
  shows "10 powr b \<le> x \<and> x \<le> 10 powr a"
proof -
  from assms(3) obtain k where k: "k < num"
    and x: "x = 10 powr (a + real k * ((b - a) / real (num - 1)))"
    unfolding np_logspace_eq [OF assms(2)] by auto
  from grid_between [OF assms(1,2) k] show ?thesis
    unfolding x by (intro conjI powr_mono) simp_all
qed

lemma play_clicked_start:
  assumes "\<not> animation_active s"
  shows "animation_frames (play_clicked s) =
           Some (np_logspace
                  (np_log10 (if slider_val s \<le> min_width then max_width else slider_val s))
                  (np_log10 min_width) 100)"
  using assms by (simp add: play_clicked_def Let_def)

lemma logspace_frames:
  assumes "1 / 1000 < w"
  defines "fr \<equiv> np_logspace (np_log10 w) (np_log10 min_width) 100"
  shows "length fr = 100"
    and "fr = map (\<lambda>k. 10 powr (log 10 w + real k * ((log 10 (1 / 1000) - log 10 w) / 99)))
                [0..<100]"
    and "fr ! 0 = w"
    and "fr ! 99 = 1 / 1000"
    and "\<forall>x \<in> set fr. 1 / 1000 \<le> x \<and> x \<le> w"
proof -
  have w: "0 < w" using assms(1) by linarith
  have pw: "10 powr np_log10 w = w"
    using w by (simp add: np_log10_def)
  have pm: "10 powr np_log10 min_width = 1 / 1000"
    by (simp add: np_log10_def min_width_def)
  have le: "np_log10 min_width \<le> np_log10 w"
    using assms(1) w by (simp add: np_log10_def min_width_def)
  show "length fr = 100"
    by (simp add: fr_def np_logspace_def np_linspace_length)
  show "fr = map (\<lambda>k. 10 powr (log 10 w + real k * ((log 10 (1 / 1000) - log 10 w) / 99)))
               [0..<100]"
    by (simp add: fr_def np_logspace_eq np_log10_def min_width_def)
  show "fr ! 0 = w"
    using pw np_linspace_first [of 100 "np_log10 w" "np_log10 min_width"]
    by (simp add: fr_def np_logspace_def np_linspace_length)
  show "fr ! 99 = 1 / 1000"
    using pm np_linspace_last [of 100 "np_log10 w" "np_log10 min_width"]
    by (simp add: fr_def np_logspace_def np_linspace_length)
  show "\<forall>x \<in> set fr. 1 / 1000 \<le> x \<and> x \<le> w"
  proof
    fix x
    assume "x \<in> set fr"
    then have mem: "x \<in> set (np_logspace (np_log10 w) (np_log10 min_width) 100)"
      by (simp only: fr_def)
    have "1 < (100::nat)" by simp
    from this mem have "10 powr np_log10 min_width \<le> x \<and> x \<le> 10 powr np_log10 w"
      by (rule np_logspace_between [OF le])
    with pw pm show "1 / 1000 \<le> x \<and> x \<le> w" by simp
  qed
qed

lemma ramp_antiderivative:
  fixes epsilon :: real
  assumes "0 < epsilon"
  defines "F \<equiv> \<lambda>t. max 0 (min 1 ((t + epsilon / 2) / epsilon))"
  shows "\<forall>t. isCont F t"
    and "\<forall>t. \<bar>t\<bar> \<noteq> epsilon / 2 \<longrightarrow>
            (F has_real_derivative (if \<bar>t\<bar> \<le> epsilon / 2 then 1 / epsilon else 0)) (at t)"
    and "\<forall>t. t \<le> - (epsilon / 2) \<longrightarrow> F t = 0"
    and "\<forall>t. epsilon / 2 \<le> t \<longrightarrow> F t = 1"
proof -
  show "\<forall>t. isCont F t"
    unfolding F_def by (intro allI continuous_intros) (use assms(1) in simp)
  have left: "F t = 0" if "t \<le> - (epsilon / 2)" for t
  proof -
    from that have "t + epsilon / 2 \<le> 0" by linarith
    then have "(t + epsilon / 2) / epsilon \<le> 0"
      using assms(1) by (simp add: divide_le_0_iff)
    then show ?thesis by (simp add: F_def)
  qed
  have right: "F t = 1" if "epsilon / 2 \<le> t" for t
  proof -
    from that have "epsilon \<le> t + epsilon / 2" by linarith
    then have "1 \<le> (t + epsilon / 2) / epsilon"
      using assms(1) by (simp add: le_divide_eq)
    then show ?thesis by (simp add: F_def)
  qed
  have mid: "F t = (t + epsilon / 2) / epsilon" if "- (epsilon / 2) < t" "t < epsilon / 2" for t
  proof -
    from that have "0 \<le> t + epsilon / 2" "t + epsilon / 2 \<le> epsilon" by linarith+
    then have "0 \<le> (t + epsilon / 2) / epsilon" "(t + epsilon / 2) / epsilon \<le> 1"
      using assms(1) by (simp_all add: divide_le_eq)
    then show ?thesis by (simp add: F_def)
  qed
  show "\<forall>t. t \<le> - (epsilon / 2) \<longrightarrow> F t = 0" using left by blast
  show "\<forall>t. epsilon / 2 \<le> t \<longrightarrow> F t = 1" using right by blast
  show "\<forall>t. \<bar>t\<bar> \<noteq> epsilon / 2 \<longrightarrow>
            (F has_real_derivative (if \<bar>t\<bar> \<le> epsilon / 2 then 1 / epsilon else 0)) (at t)"
  proof (intro allI impI)
    fix t :: real
    assume ne: "\<bar>t\<bar> \<noteq> epsilon / 2"
    consider "t < - (epsilon / 2)" | "- (epsilon / 2) < t" "t < epsilon / 2" | "epsilon / 2 < t"
      using ne by (cases "t < - (epsilon / 2)"; cases "t < epsilon / 2") (auto simp: abs_if split: if_splits)
    then show "(F has_real_derivative (if \<bar>t\<bar> \<le> epsilon / 2 then 1 / epsilon else 0)) (at t)"
    proof cases
      case 1
      have "((\<lambda>_. 0) has_real_derivative 0) (at t)" by simp
      then have "(F has_real_derivative 0) (at t)"
      proof (rule has_field_derivative_transform_within_open)
        show "open {..< - (epsilon / 2)}" by simp
        show "t \<in> {..< - (epsilon / 2)}" using 1 by simp
        show "0 = F x" if "x \<in> {..< - (epsilon / 2)}" for x
          using that left [of x] by simp
      qed
      moreover have "\<not> \<bar>t\<bar> \<le> epsilon / 2" using 1 assms(1) by linarith
      ultimately show ?thesis by simp
    next
      case 2
      have "((\<lambda>x. (x + epsilon / 2) / epsilon) has_real_derivative 1 / epsilon) (at t)"
        using assms(1) by (auto intro!: derivative_eq_intros)
      then have "(F has_real_derivative 1 / epsilon) (at t)"
      proof (rule has_field_derivative_transform_within_open)
        show "open {- (epsilon / 2) <..< epsilon / 2}" by simp
        show "t \<in> {- (epsilon / 2) <..< epsilon / 2}" using 2 by simp
        show "(x + epsilon / 2) / epsilon = F x" if "x \<in> {- (epsilon / 2) <..< epsilon / 2}" for x
          using that mid [of x] by simp
      qed
      moreover have "\<bar>t\<bar> \<le> epsilon / 2" using 2 by linarith
      ultimately show ?thesis by simp
    next
      case 3
      have "((\<lambda>_. 1) has_real_derivative 0) (at t)" by simp
      then have "(F has_real_derivative 0) (at t)"
      proof (rule has_field_derivative_transform_within_open)
        show "open {epsilon / 2 <..}" by simp
        show "t \<in> {epsilon / 2 <..}" using 3 by simp
        show "1 = F x" if "x \<in> {epsilon / 2 <..}" for x
          using that right [of x] by simp
      qed
      moreover have "\<not> \<bar>t\<bar> \<le> epsilon / 2" using 3 assms(1) by linarith
      ultimately show ?thesis by simp
    qed
  qed
qed

lemma round_half_even_of_int: "round_half_even (of_int k) = k"
  by (simp add: round_half_even_def)

lemma round_half_even_bounds:
  "\<lfloor>x\<rfloor> \<le> round_half_even x" "round_half_even x \<le> \<lfloor>x\<rfloor> + 1"
  by (simp_all add: round_half_even_def Let_def)

lemma round_half_even_mono:
  assumes "x \<le> y"
  shows "round_half_even x \<le> round_half_even y"
proof (cases "\<lfloor>x\<rfloor> = \<lfloor>y\<rfloor>")
  case True
  have "x - of_int \<lfloor>x\<rfloor> \<le> y - of_int \<lfloor>y\<rfloor>"
    using assms True by simp
  then show ?thesis
    using True by (auto simp: round_half_even_def Let_def)
next
  case False
  with assms have "\<lfloor>x\<rfloor> < \<lfloor>y\<rfloor>"
    by (simp add: floor_mono less_le)
  then have "\<lfloor>x\<rfloor> + 1 \<le> \<lfloor>y\<rfloor>" by simp
  with round_half_even_bounds(2) [of x] round_half_even_bounds(1) [of y]
  show ?thesis by linarith
qed

lemma round_half_even_minus: "round_half_even (- x) = - round_half_even x"
proof (cases "x \<in> \<int>")
  case True
  then obtain k where "x = of_int k" by (auto elim: Ints_cases)
  then have "- x = of_int (- k)" by simp
  then show ?thesis unfolding \<open>x = of_int k\<close>
    by (simp only: round_half_even_of_int)
next
  case False
  then have "x \<noteq> of_int \<lfloor>x\<rfloor>" by (metis Ints_of_int)
  then have fl: "\<lfloor>- x\<rfloor> = - \<lfloor>x\<rfloor> - 1"
    by (simp add: floor_minus ceiling_altdef)
  define f where "f = \<lfloor>x\<rfloor>"
  define r where "r = x - of_int f"
  have r: "- x - of_int (- f - 1) = 1 - r"
    by (simp add: r_def)
  have par: "even (- f - 1) \<longleftrightarrow> \<not> even f" by simp
  show ?thesis
    unfolding round_half_even_def Let_def fl f_def [symmetric] r r_def [symmetric] par
    by auto
qed

lemma ulp64_pos: "0 < ulp64 x"
  by (simp add: ulp64_def)

lemma ulp64_minus: "ulp64 (- x) = ulp64 x"
  by (simp add: ulp64_def)

lemma fl64_zero: "fl64 0 = 0"
  by (simp add: fl64_def)

lemma fl64_minus: "fl64 (- x) = - fl64 x"
  by (simp add: fl64_def round_half_even_minus ulp64_minus)

lemma binade:
  assumes "x \<noteq> 0"
  shows "2 powr of_int \<lfloor>log 2 \<bar>x\<bar>\<rfloor> \<le> \<bar>x\<bar>" "\<bar>x\<bar> < 2 powr (of_int \<lfloor>log 2 \<bar>x\<bar>\<rfloor> + 1)"
  using floor_log_eq_powr_iff [of "\<bar>x\<bar>" 2 "\<lfloor>log 2 \<bar>x\<bar>\<rfloor>"] assms by simp_all

lemma binade_eq:
  assumes "2 powr of_int k \<le> \<bar>x\<bar>" "\<bar>x\<bar> < 2 powr (of_int k + 1)"
  shows "\<lfloor>log 2 \<bar>x\<bar>\<rfloor> = k"
proof -
  have "0 < \<bar>x\<bar>" using assms(1) powr_gt_zero [of 2 "of_int k"] by linarith
  then show ?thesis
    using floor_log_eq_powr_iff [of "\<bar>x\<bar>" 2 k] assms by simp
qed

lemma scaled_range:
  assumes "0 < x"
  shows "2 ^ 52 \<le> x / ulp64 x" "x / ulp64 x < 2 ^ 53"
proof -
  define e where "e = \<lfloor>log 2 \<bar>x\<bar>\<rfloor>"
  have x: "x \<noteq> 0" "\<bar>x\<bar> = x" using assms by simp_all
  have u: "ulp64 x = 2 powr of_int e / 2 ^ 52"
    by (simp add: ulp64_def e_def powr_diff)
  have lo: "2 powr of_int e \<le> x" and hi: "x < 2 powr of_int e * 2"
    using binade [OF x(1)] x(2) by (simp_all add: e_def powr_add)
  have p: "0 < 2 powr (of_int e :: real)" by simp
  define q where "q = x / 2 powr of_int e"
  have eq: "x / ulp64 x = q * 2 ^ 52"
    by (simp add: u q_def)
  have q1: "1 \<le> q" using lo p by (simp add: q_def le_divide_eq)
  have q2: "q < 2" using hi p by (simp add: q_def divide_less_eq)
  have "1 * 2 ^ 52 \<le> q * (2 ^ 52 :: real)"
    using q1 by (intro mult_right_mono) simp_all
  then show "2 ^ 52 \<le> x / ulp64 x" unfolding eq by simp
  have "q * (2 ^ 52 :: real) < 2 * 2 ^ 52"
    using q2 by (intro mult_strict_right_mono) simp_all
  then show "x / ulp64 x < 2 ^ 53" unfolding eq by simp
qed

lemma mantissa_range:
  assumes "0 < x"
  shows "2 ^ 52 \<le> round_half_even (x / ulp64 x)" "round_half_even (x / ulp64 x) \<le> 2 ^ 53"
proof -
  have "round_half_even (of_int (2 ^ 52)) \<le> round_half_even (x / ulp64 x)"
    by (rule round_half_even_mono) (use scaled_range(1) [OF assms] in simp)
  then show "2 ^ 52 \<le> round_half_even (x / ulp64 x)"
    by (simp only: round_half_even_of_int)
  have "round_half_even (x / ulp64 x) \<le> round_half_even (of_int (2 ^ 53))"
    by (rule round_half_even_mono) (use scaled_range(2) [OF assms] in simp)
  then show "round_half_even (x / ulp64 x) \<le> 2 ^ 53"
    by (simp only: round_half_even_of_int)
qed

lemma fl64_binade:
  assumes "0 < x"
  shows "2 powr of_int \<lfloor>log 2 \<bar>x\<bar>\<rfloor> \<le> fl64 x" "fl64 x \<le> 2 powr (of_int \<lfloor>log 2 \<bar>x\<bar>\<rfloor> + 1)"
proof -
  define e where "e = \<lfloor>log 2 \<bar>x\<bar>\<rfloor>"
  define m where "m = round_half_even (x / ulp64 x)"
  have u: "ulp64 x = 2 powr of_int e / 2 ^ 52"
    by (simp add: ulp64_def e_def powr_diff)
  have f: "fl64 x = of_int m * (2 powr of_int e / 2 ^ 52)"
    using assms by (simp add: fl64_def m_def u)
  have m: "2 ^ 52 \<le> m" "m \<le> 2 ^ 53"
    using mantissa_range [OF assms] by (simp_all add: m_def)
  then have mr: "(2 ^ 52 :: real) \<le> of_int m" "(of_int m :: real) \<le> 2 ^ 53"
    by (metis of_int_le_iff of_int_numeral of_int_power)+
  have p: "0 < 2 powr (of_int e :: real)" by simp
  define c :: real where "c = of_int m / 2 ^ 52"
  have c: "1 \<le> c" "c \<le> 2" using mr by (simp_all add: c_def)
  have fc: "fl64 x = 2 powr of_int e * c" by (simp add: f c_def)
  have "2 powr of_int e * 1 \<le> 2 powr of_int e * c"
    using c(1) p by (intro mult_left_mono) simp_all
  then show "2 powr of_int e \<le> fl64 x" by (simp add: fc)
  have "2 powr of_int e * c \<le> 2 powr of_int e * 2"
    using c(2) p by (intro mult_left_mono) simp_all
  then show "fl64 x \<le> 2 powr (of_int e + 1)" by (simp add: fc powr_add)
qed

lemma fl64_pos: "0 < x \<Longrightarrow> 0 < fl64 x"
  using fl64_binade(1) [of x] powr_gt_zero [of 2 "of_int \<lfloor>log 2 \<bar>x\<bar>\<rfloor>"] by linarith

lemma fl64_mono_pos:
  assumes "0 < x" "x \<le> y"
  shows "fl64 x \<le> fl64 y"
proof -
  have y: "0 < y" using assms by linarith
  define ex where "ex = \<lfloor>log 2 \<bar>x\<bar>\<rfloor>"
  define ey where "ey = \<lfloor>log 2 \<bar>y\<bar>\<rfloor>"
  have "log 2 x \<le> log 2 y" using assms by simp
  then have le: "ex \<le> ey"
    using assms y by (simp add: ex_def ey_def floor_mono)
  show ?thesis
  proof (cases "ex = ey")
    case True
    then have u: "ulp64 x = ulp64 y" by (simp add: ulp64_def ex_def ey_def)
    have "x / ulp64 y \<le> y / ulp64 y"
      using assms(2) ulp64_pos [of y] by (simp add: divide_right_mono)
    then have "round_half_even (x / ulp64 y) \<le> round_half_even (y / ulp64 y)"
      by (rule round_half_even_mono)
    then have "(of_int (round_half_even (x / ulp64 y)) :: real) \<le> of_int (round_half_even (y / ulp64 y))"
      by simp
    then have "of_int (round_half_even (x / ulp64 y)) * ulp64 y
                 \<le> of_int (round_half_even (y / ulp64 y)) * ulp64 y"
      using ulp64_pos [of y] by (simp add: mult_right_mono)
    then show ?thesis using assms(1) y by (simp add: fl64_def u)
  next
    case False
    with le have "ex + 1 \<le> ey" by simp
    then have "(of_int ex + 1 :: real) \<le> of_int ey" by linarith
    then have "(2::real) powr (of_int ex + 1) \<le> 2 powr of_int ey"
      by (intro powr_mono) simp_all
    moreover have "fl64 x \<le> 2 powr (of_int ex + 1)"
      using fl64_binade(2) [OF assms(1)] by (simp only: ex_def)
    moreover have "2 powr of_int ey \<le> fl64 y"
      using fl64_binade(1) [OF y] by (simp only: ey_def)
    ultimately show ?thesis by linarith
  qed
qed

lemma fl64_mono:
  assumes "x \<le> y"
  shows "fl64 x \<le> fl64 y"
proof -
  consider "0 < x" | "x \<le> 0" "0 \<le> y" | "y < 0" using assms by linarith
  then show ?thesis
  proof cases
    case 1
    then show ?thesis using assms by (rule fl64_mono_pos)
  next
    case 2
    have "fl64 x \<le> 0"
    proof (cases "x = 0")
      case False
      with 2 have "0 < - x" by simp
      from fl64_pos [OF this] show ?thesis by (simp add: fl64_minus)
    qed (simp add: fl64_zero)
    moreover have "0 \<le> fl64 y"
    proof (cases "y = 0")
      case False
      with 2 have "0 < y" by simp
      from fl64_pos [OF this] show ?thesis by simp
    qed (simp add: fl64_zero)
    ultimately show ?thesis by linarith
  next
    case 3
    then have "0 < - y" "- y \<le> - x" using assms by simp_all
    from fl64_mono_pos [OF this] show ?thesis by (simp add: fl64_minus)
  qed
qed

lemma fl64_eval:
  assumes "2 powr of_int k \<le> \<bar>x\<bar>" "\<bar>x\<bar> < 2 powr (of_int k + 1)"
  shows "fl64 x = of_int (round_half_even (x / 2 powr (of_int k - 52))) * 2 powr (of_int k - 52)"
proof -
  have "0 < \<bar>x\<bar>" using assms(1) powr_gt_zero [of 2 "of_int k"] by linarith
  then have "x \<noteq> 0" by simp
  then show ?thesis
    by (simp add: fl64_def ulp64_def binade_eq [OF assms])
qed

lemma fl64_exact_pos:
  assumes "0 < m" "m \<le> 2 ^ 53"
  shows "fl64 (of_int m * 2 powr of_int j) = of_int m * 2 powr of_int j"
proof -
  define x :: real where "x = of_int m * 2 powr of_int j"
  define e where "e = \<lfloor>log 2 \<bar>x\<bar>\<rfloor>"
  define d where "d = j - e + 52"
  have x: "0 < x" using assms(1) by (simp add: x_def)
  have u: "ulp64 x = 2 powr of_int (e - 52)"
    by (simp add: ulp64_def e_def)
  have "x / 2 powr of_int (e - 52) = of_int m * (2 powr of_int j / 2 powr of_int (e - 52))"
    by (simp add: x_def)
  then have "x / ulp64 x = of_int m * (2 powr of_int j / 2 powr of_int (e - 52))"
    by (simp only: u)
  also have "2 powr of_int j / 2 powr of_int (e - 52) = (2::real) powr of_int d"
  proof -
    have "(of_int j :: real) - of_int (e - 52) = of_int d" by (simp add: d_def)
    then show ?thesis by (simp only: powr_diff [symmetric])
  qed
  finally have s: "x / ulp64 x = of_int m * 2 powr of_int d" .
  have mr: "(of_int m :: real) \<le> 2 ^ 53"
    using assms(2) by (metis of_int_le_iff of_int_numeral of_int_power)
  have "\<exists>n::int. x / ulp64 x = of_int n"
  proof (cases "0 \<le> d")
    case True
    then have "(2::real) powr of_int d = of_int (2 ^ nat d)"
      by (simp add: powr_real_of_int)
    then have "x / ulp64 x = of_int (m * 2 ^ nat d)"
      by (simp add: s)
    then show ?thesis ..
  next
    case False
    then have "d \<le> - 1" by simp
    then have "(of_int d :: real) \<le> - 1" by linarith
    then have "(2::real) powr of_int d \<le> 2 powr (- 1)"
      by (intro powr_mono) simp_all
    then have h: "(2::real) powr of_int d \<le> 1 / 2"
      by (simp add: powr_minus_divide)
    have "of_int m * 2 powr of_int d \<le> 2 ^ 53 * (1 / 2 :: real)"
      using mr h by (intro mult_mono) (use assms(1) in simp_all)
    then have "x / ulp64 x \<le> 2 ^ 52" by (simp add: s)
    with scaled_range(1) [OF x] have "x / ulp64 x = of_int (2 ^ 52)" by simp
    then show ?thesis ..
  qed
  then obtain n :: int where n: "x / ulp64 x = of_int n" ..
  have "fl64 x = of_int (round_half_even (x / ulp64 x)) * ulp64 x"
    using x by (simp add: fl64_def)
  also have "\<dots> = x / ulp64 x * ulp64 x"
    by (simp only: n round_half_even_of_int)
  also have "\<dots> = x"
    using ulp64_pos [of x] by simp
  finally show ?thesis by (simp only: x_def)
qed

lemma fl64_exact:
  assumes "\<bar>m\<bar> \<le> 2 ^ 53"
  shows "fl64 (of_int m * 2 powr of_int j) = of_int m * 2 powr of_int j"
proof -
  consider "0 < m" | "m = 0" | "m < 0" by linarith
  then show ?thesis
  proof cases
    case 1
    with assms show ?thesis by (intro fl64_exact_pos) simp_all
  next
    case 2
    then show ?thesis by (simp add: fl64_zero)
  next
    case 3
    with assms have "fl64 (of_int (- m) * 2 powr of_int j) = of_int (- m) * 2 powr of_int j"
      by (intro fl64_exact_pos) simp_all
    then have "fl64 (- (of_int m * 2 powr of_int j)) = - (of_int m * 2 powr of_int j)"
      by simp
    then show ?thesis by (simp only: fl64_minus neg_equal_iff_equal)
  qed
qed

lemma fl64_idem: "fl64 (fl64 x) = fl64 x"
proof -
  have pos: "fl64 (fl64 y) = fl64 y" if "0 < y" for y
  proof -
    define m where "m = round_half_even (y / ulp64 y)"
    have "fl64 y = of_int m * 2 powr of_int (\<lfloor>log 2 \<bar>y\<bar>\<rfloor> - 52)"
      using that by (simp add: fl64_def m_def ulp64_def)
    moreover have "\<bar>m\<bar> \<le> 2 ^ 53"
      using mantissa_range [OF that] by (simp add: m_def)
    ultimately show ?thesis by (simp only: fl64_exact)
  qed
  consider "0 < x" | "x = 0" | "x < 0" by linarith
  then show ?thesis
  proof cases
    case 1
    then show ?thesis by (rule pos)
  next
    case 2
    then show ?thesis by (simp add: fl64_zero)
  next
    case 3
    then have "fl64 (fl64 (- x)) = fl64 (- x)" by (intro pos) simp
    then show ?thesis by (simp add: fl64_minus)
  qed
qed

lemma fl64_of_int:
  assumes "\<bar>m\<bar> \<le> 2 ^ 53"
  shows "fl64 (of_int m) = of_int m"
  using fl64_exact [OF assms, of 0] by simp

lemma fl64_le_float:
  assumes "x \<le> fl64 d"
  shows "fl64 x \<le> fl64 d"
  using fl64_mono [OF assms] by (simp only: fl64_idem)

lemma fl64_abs_le_float:
  assumes "\<bar>x\<bar> \<le> fl64 d"
  shows "\<bar>fl64 x\<bar> \<le> fl64 d"
proof -
  have "fl64 x \<le> fl64 d"
    using assms by (intro fl64_le_float) linarith
  moreover have "fl64 (- x) \<le> fl64 d"
    using assms by (intro fl64_le_float) linarith
  ultimately show ?thesis by (simp add: fl64_minus abs_le_iff)
qed

lemma last_upto: "i \<le> j \<Longrightarrow> last [i..j] = j"
  by (simp add: upto_rec2)

lemma compute_fourier_series_eq:
  assumes "0 < T"
  shows "compute_fourier_series T f_max =
           Inr (map (\<lambda>n. fl64 (real_of_int n / fl64 T))
                  [- \<lfloor>fl64 (fl64 f_max * fl64 T)\<rfloor>..\<lfloor>fl64 (fl64 f_max * fl64 T)\<rfloor>],
                map (fourier_coefficient (fl64 T) (sample_times (fl64 T)) (sample_values (fl64 T)))
                  [- \<lfloor>fl64 (fl64 f_max * fl64 T)\<rfloor>..\<lfloor>fl64 (fl64 f_max * fl64 T)\<rfloor>])"
proof -
  have "fl64 T \<noteq> 0" using fl64_pos [OF assms] by simp
  then show ?thesis
    by (simp add: compute_fourier_series_def np_arange_def Let_def)
qed

lemma fl64_69: "fl64 (69 / 100) = 1553741871442821 / 2 ^ 51"
proof -
  have "fl64 (69 / 100) = of_int (round_half_even ((69 / 100) / 2 powr (of_int (- 1) - 52))) * 2 powr (of_int (- 1) - 52)"
    by (rule fl64_eval) (simp_all add: powr_minus_divide)
  also have "\<dots> = 1553741871442821 / 2 ^ 51"
    by (simp add: round_half_even_def powr_minus_divide Let_def)
  finally show ?thesis .
qed

lemma fl64_100: "fl64 100 = 100"
  using fl64_of_int [of 100] by simp

lemma fl64_prod_69: "fl64 (100 * (1553741871442821 / 2 ^ 51)) = 69"
proof -
  have "fl64 (100 * (1553741871442821 / 2 ^ 51)) =
          of_int (round_half_even ((100 * (1553741871442821 / 2 ^ 51)) / 2 powr (of_int 6 - 52)))
            * 2 powr (of_int 6 - 52)"
    by (rule fl64_eval) (simp_all add: powr_minus_divide)
  also have "\<dots> = 69"
    by (simp add: round_half_even_def powr_minus_divide Let_def)
  finally show ?thesis .
qed

lemma fl64_quot_69: "fl64 (69 / (1553741871442821 / 2 ^ 51)) = 100 + 1 / 2 ^ 46"
proof -
  have "fl64 (69 / (1553741871442821 / 2 ^ 51)) =
          of_int (round_half_even ((69 / (1553741871442821 / 2 ^ 51)) / 2 powr (of_int 6 - 52)))
            * 2 powr (of_int 6 - 52)"
    by (rule fl64_eval) (simp_all add: powr_minus_divide)
  also have "\<dots> = 100 + 1 / 2 ^ 46"
    by (simp add: round_half_even_def powr_minus_divide Let_def)
  finally show ?thesis .
qed






subsection \<open>The claims\<close>

text \<open>
  C1. For every array of time samples and every width \<open>epsilon > 0\<close>, \<open>dirac_rect\<close>
  returns, sample by sample, \<open>1/epsilon\<close> where \<open>|t| \<le> epsilon/2\<close> and \<open>0\<close> elsewhere:
  a rectangular pulse of height \<open>1/epsilon\<close> and width \<open>epsilon\<close>.
\<close>

theorem dirac_rect_pulse:
  assumes "0 < epsilon"
  shows "dirac_rect t epsilon =
           Inr (map (\<lambda>ti. if \<bar>ti\<bar> \<le> epsilon / 2 then 1 / epsilon else 0) t)"
  using assms by (simp add: dirac_rect_def rect_def)

theorem dirac_rect_pulse_witness:
  "(0::real) < 1 / 2 \<and> dirac_rect [- 1, - (1 / 4), 0, 1 / 4, 3] (1 / 2) = Inr [0, 2, 2, 2, 0]"
  using dirac_rect_pulse [of "1 / 2" "[- 1, - (1 / 4), 0, 1 / 4, 3]"] by simp

text \<open>
  C2. For every frequency array and every \<open>epsilon\<close>, \<open>compute_ft\<close> returns the
  all-ones array when \<open>epsilon\<close> is below the threshold \<open>0.005\<close>, and otherwise
  \<open>sin(pi f epsilon) / (pi f epsilon)\<close> sample by sample, with the value \<open>1\<close> at every
  sample where \<open>f = 0\<close>.
\<close>

theorem compute_ft_sinc:
  "compute_ft f epsilon =
     (if epsilon < 5 / 1000 then replicate (length f) (Finite 1)
      else map (\<lambda>fi. if fi = 0 then Finite 1
                      else Finite (sin (pi * fi * epsilon) / (pi * fi * epsilon))) f)"
  by (auto simp: compute_ft_def np_ones_like_def np_divide_def np_isnan_def Let_def)

text \<open>
  C3, amended. For every period \<open>T > 0\<close> and every \<open>f_max\<close>, \<open>compute_fourier_series\<close>
  returns the frequencies and the coefficients of exactly the harmonics \<open>n\<close> from
  \<open>-n_max\<close> to \<open>n_max\<close> inclusive, in this order, where \<open>n_max\<close> is the floor of the
  product \<open>f_max T\<close> as float64 arithmetic rounds it. Every returned harmonic satisfies
  \<open>|n| \<le>\<close> the rounded product, and every returned frequency satisfies \<open>|fn| \<le> f_max\<close>
  whenever \<open>n_max \<le> f_max T\<close> holds of the exact product, as it does when the product is
  computed without rounding.
\<close>

theorem compute_fourier_series_harmonics:
  assumes "0 < T"
  shows "compute_fourier_series T f_max =
           Inr (map (\<lambda>n. fl64 (real_of_int n / fl64 T))
                  [- \<lfloor>fl64 (fl64 f_max * fl64 T)\<rfloor>..\<lfloor>fl64 (fl64 f_max * fl64 T)\<rfloor>],
                map (fourier_coefficient (fl64 T) (sample_times (fl64 T)) (sample_values (fl64 T)))
                  [- \<lfloor>fl64 (fl64 f_max * fl64 T)\<rfloor>..\<lfloor>fl64 (fl64 f_max * fl64 T)\<rfloor>])
         \<and> (\<forall>n \<in> set [- \<lfloor>fl64 (fl64 f_max * fl64 T)\<rfloor>..\<lfloor>fl64 (fl64 f_max * fl64 T)\<rfloor>].
               \<bar>real_of_int n\<bar> \<le> fl64 (fl64 f_max * fl64 T))
         \<and> (real_of_int \<lfloor>fl64 (fl64 f_max * fl64 T)\<rfloor> \<le> fl64 f_max * fl64 T \<longrightarrow>
               (\<forall>n \<in> set [- \<lfloor>fl64 (fl64 f_max * fl64 T)\<rfloor>..\<lfloor>fl64 (fl64 f_max * fl64 T)\<rfloor>].
                  \<bar>fl64 (real_of_int n / fl64 T)\<bar> \<le> fl64 f_max))"
proof -
  define Tf where "Tf = fl64 T"
  define ff where "ff = fl64 f_max"
  define m where "m = \<lfloor>fl64 (ff * Tf)\<rfloor>"
  have Tf: "0 < Tf" using fl64_pos [OF assms] by (simp add: Tf_def)
  have b: "\<bar>real_of_int n\<bar> \<le> fl64 (ff * Tf)" if "n \<in> set [- m..m]" for n
  proof -
    from that have "\<bar>n\<bar> \<le> m" by auto
    then have "\<bar>real_of_int n\<bar> \<le> real_of_int m" by linarith
    also have "\<dots> \<le> fl64 (ff * Tf)" by (simp add: m_def)
    finally show ?thesis .
  qed
  have c: "\<bar>fl64 (real_of_int n / Tf)\<bar> \<le> ff"
    if exact: "real_of_int m \<le> ff * Tf" and n: "n \<in> set [- m..m]" for n
  proof -
    from n have "\<bar>n\<bar> \<le> m" by auto
    then have "\<bar>real_of_int n\<bar> \<le> real_of_int m" by linarith
    with exact have "\<bar>real_of_int n\<bar> \<le> ff * Tf" by linarith
    then have "\<bar>real_of_int n\<bar> / Tf \<le> ff"
      using Tf by (simp add: pos_divide_le_eq)
    then have "\<bar>real_of_int n / Tf\<bar> \<le> fl64 f_max"
      using Tf by (simp add: ff_def)
    then have "\<bar>fl64 (real_of_int n / Tf)\<bar> \<le> fl64 f_max"
      by (rule fl64_abs_le_float)
    then show ?thesis by (simp only: ff_def)
  qed
  from compute_fourier_series_eq [OF assms, of f_max] b c show ?thesis
    unfolding Tf_def ff_def m_def by blast
qed

theorem compute_fourier_series_harmonics_witness:
  "(0::real) < 4
   \<and> real_of_int \<lfloor>fl64 (fl64 10 * fl64 4)\<rfloor> \<le> fl64 10 * fl64 4
   \<and> map_sum id (\<lambda>r. length (fst r)) (compute_fourier_series 4 10) = Inr 81
   \<and> list_all (\<lambda>n. \<bar>fl64 (real_of_int n / 4)\<bar> \<le> 10) [- 40..40]"
proof -
  have f: "fl64 4 = 4" "fl64 10 = 10" "fl64 (10 * 4) = 40"
    using fl64_of_int [of 4] fl64_of_int [of 10] fl64_of_int [of 40] by simp_all
  have m: "\<lfloor>fl64 (fl64 10 * fl64 4)\<rfloor> = 40"
    by (simp only: f) simp
  have pos: "(0::real) < 4" by simp
  have exact: "real_of_int \<lfloor>fl64 (fl64 10 * fl64 4)\<rfloor> \<le> fl64 10 * fl64 4"
    by (simp only: m f) simp
  from compute_fourier_series_harmonics [OF pos, of 10] exact
  have a: "compute_fourier_series 4 10 =
             Inr (map (\<lambda>n. fl64 (real_of_int n / fl64 4))
                    [- \<lfloor>fl64 (fl64 10 * fl64 4)\<rfloor>..\<lfloor>fl64 (fl64 10 * fl64 4)\<rfloor>],
                  map (fourier_coefficient (fl64 4) (sample_times (fl64 4)) (sample_values (fl64 4)))
                    [- \<lfloor>fl64 (fl64 10 * fl64 4)\<rfloor>..\<lfloor>fl64 (fl64 10 * fl64 4)\<rfloor>])"
    and c: "\<forall>n \<in> set [- \<lfloor>fl64 (fl64 10 * fl64 4)\<rfloor>..\<lfloor>fl64 (fl64 10 * fl64 4)\<rfloor>].
               \<bar>fl64 (real_of_int n / fl64 4)\<bar> \<le> fl64 10"
    by blast+
  have "map_sum id (\<lambda>r. length (fst r)) (compute_fourier_series 4 10) = Inr 81"
    unfolding a m by (simp only: map_sum.simps fst_conv length_map length_upto) simp
  moreover have "list_all (\<lambda>n. \<bar>fl64 (real_of_int n / 4)\<bar> \<le> 10) [- 40..40]"
  proof -
    from c have "\<forall>n \<in> set [- 40..40]. \<bar>fl64 (real_of_int n / fl64 4)\<bar> \<le> fl64 10"
      by (simp only: m)
    then show ?thesis by (simp only: f list_all_iff)
  qed
  ultimately show ?thesis using pos exact by blast
qed

text \<open>
  The claim as written, with the floor of the exact product and the bound for every
  \<open>T > 0\<close>, fails at \<open>T = 0.69\<close>, \<open>f_max = 100\<close>: the float64 product is \<open>69.0\<close> although
  the period passed is below \<open>0.69\<close>, and the last frequency returned is
  \<open>100.00000000000001\<close>, above \<open>f_max\<close>.
\<close>

theorem compute_fourier_series_counterexample:
  "map_sum id (\<lambda>r. last (fst r)) (compute_fourier_series (69 / 100) 100) = Inr (100 + 1 / 2 ^ 46)
   \<and> \<not> (100 + 1 / 2 ^ 46 \<le> (100::real))"
proof -
  let ?g = "\<lambda>n. fl64 (real_of_int n / fl64 (69 / 100))"
  have m: "\<lfloor>fl64 (fl64 100 * fl64 (69 / 100))\<rfloor> = 69"
    by (simp only: fl64_69 fl64_100 fl64_prod_69) simp
  have "(0::real) < 69 / 100" by simp
  from compute_fourier_series_eq [OF this, of 100]
  have "map_sum id (\<lambda>r. last (fst r)) (compute_fourier_series (69 / 100) 100)
          = Inr (last (map ?g [- 69..69]))"
    by (simp only: m map_sum.simps fst_conv id_apply)
  also have "last (map ?g [- 69..69]) = ?g (last [- 69..69])"
    by (rule last_map) simp
  also have "last [- 69..69::int] = 69"
    by (rule last_upto) simp
  also have "?g 69 = 100 + 1 / 2 ^ 46"
    using fl64_quot_69 by (simp only: fl64_69 of_int_numeral)
  finally show ?thesis by (rule conjI) simp
qed



text \<open>
  C5. For every width \<open>epsilon > 0\<close> the pulse of \<open>dirac_rect\<close> has the height
  \<open>1/epsilon\<close> on the interval from \<open>-epsilon/2\<close> to \<open>epsilon/2\<close> and is \<open>0\<close> outside
  it, and the height times the length of the interval, the area under the pulse, is \<open>1\<close>.
  The same area as an integral: the pulse is, away from its two jumps, the derivative of
  a continuous function that is \<open>0\<close> to the left of the interval and \<open>1\<close> to its right.
\<close>

theorem dirac_rect_unit_area:
  assumes "0 < epsilon"
  shows "(\<forall>t. dirac_rect [t] epsilon =
               Inr [if \<bar>t\<bar> \<le> epsilon / 2 then 1 / epsilon else 0])
         \<and> (1 / epsilon) * (epsilon / 2 - (- (epsilon / 2))) = 1
         \<and> (\<exists>F. (\<forall>t. isCont F t)
                \<and> (\<forall>t. \<bar>t\<bar> \<noteq> epsilon / 2 \<longrightarrow>
                      (F has_real_derivative (if \<bar>t\<bar> \<le> epsilon / 2 then 1 / epsilon else 0))
                        (at t))
                \<and> (\<forall>t. t \<le> - (epsilon / 2) \<longrightarrow> F t = 0)
                \<and> (\<forall>t. epsilon / 2 \<le> t \<longrightarrow> F t = 1))"
proof -
  have "\<forall>t. dirac_rect [t] epsilon = Inr [if \<bar>t\<bar> \<le> epsilon / 2 then 1 / epsilon else 0]"
    using assms by (simp add: dirac_rect_def rect_def)
  moreover have "(1 / epsilon) * (epsilon / 2 - (- (epsilon / 2))) = 1"
    using assms by simp
  ultimately show ?thesis
    using ramp_antiderivative [OF assms] by blast
qed

theorem dirac_rect_unit_area_witness:
  "(0::real) < 1 / 1000
   \<and> dirac_rect [0] (1 / 1000) = Inr [1000]
   \<and> dirac_rect [1 / 1000] (1 / 1000) = Inr [0]
   \<and> 1000 * ((1 / 1000) / 2 - (- ((1 / 1000) / 2))) = (1::real)"
  using dirac_rect_unit_area [of "1 / 1000"]
  by simp





text \<open>
  C8. When the play button is clicked while no animation is active and the slider
  value \<open>w\<close>, which the slider keeps at or below its maximum \<open>2.0\<close>, is above the minimum
  width \<open>0.001\<close>, the frame sequence has exactly 100 values, spaced linearly in the
  exponent of 10 from \<open>w\<close> down to \<open>0.001\<close>, and every frame lies within the slider
  bounds.
\<close>

theorem play_clicked_frames:
  assumes "\<not> animation_active s"
    and "1 / 1000 < slider_val s"
    and "slider_val s \<le> 2"
  shows "\<exists>frames. animation_frames (play_clicked s) = Some frames
           \<and> length frames = 100
           \<and> frames = map (\<lambda>k. 10 powr (log 10 (slider_val s)
                          + real k * ((log 10 (1 / 1000) - log 10 (slider_val s)) / 99)))
                        [0..<100]
           \<and> frames ! 0 = slider_val s
           \<and> frames ! 99 = 1 / 1000
           \<and> (\<forall>x \<in> set frames. 1 / 1000 \<le> x \<and> x \<le> slider_val s \<and> x \<le> 2)"
proof -
  let ?fr = "np_logspace (np_log10 (slider_val s)) (np_log10 min_width) 100"
  have "animation_frames (play_clicked s) = Some ?fr"
    using play_clicked_start [OF assms(1)] assms(2) by (simp add: min_width_def)
  moreover have "\<forall>x \<in> set ?fr. 1 / 1000 \<le> x \<and> x \<le> slider_val s \<and> x \<le> 2"
    using logspace_frames(5) [OF assms(2)] assms(3) by fastforce
  ultimately show ?thesis
    using logspace_frames(1-4) [OF assms(2)] by blast
qed

theorem play_clicked_frames_witness:
  "\<not> animation_active \<lparr>slider_val = 1 / 2, button_label = ''Play Animation'',
        animation_active = False, animation_timer = None, animation_frames = None,
        current_frame = 0\<rparr>
   \<and> (1 / 1000 :: real) < 1 / 2 \<and> (1 / 2 :: real) \<le> 2
   \<and> (\<exists>frames. animation_frames (play_clicked \<lparr>slider_val = 1 / 2,
          button_label = ''Play Animation'', animation_active = False,
          animation_timer = None, animation_frames = None, current_frame = 0\<rparr>) = Some frames
        \<and> length frames = 100 \<and> frames ! 0 = 1 / 2 \<and> frames ! 99 = 1 / 1000
        \<and> (\<forall>x \<in> set frames. 1 / 1000 \<le> x \<and> x \<le> 2))"
  using play_clicked_frames [of "\<lparr>slider_val = 1 / 2, button_label = ''Play Animation'',
        animation_active = False, animation_timer = None, animation_frames = None,
        current_frame = 0\<rparr>"]
  by auto

text \<open>
  C9, amended. If \<open>main()\<close> of script one raises an exception that is an instance of
  \<open>Exception\<close> and the handler's own calls (the two imports, \<open>tk.Tk()\<close>, \<open>withdraw()\<close>,
  \<open>showerror()\<close>) return, the handler shows the error dialog and then raises the same
  exception again. If one of the handler's calls raises, the first to do so ends the
  handler: no dialog has been shown and the exception of that call propagates instead.
  An exception that is not an instance
  of \<open>Exception\<close> goes past the handler with no dialog. Script two hands every outcome
  of its body on unchanged, with no dialog.
\<close>

theorem run_scripts_error_handling:
  "(is_Exception e \<longrightarrow>
      (import_tkinter env = Some x \<longrightarrow> run_dirac_fourier_gui env (Inl e) = ([], Inl x))
      \<and> (import_tkinter env = None \<and> import_messagebox env = Some x \<longrightarrow>
           run_dirac_fourier_gui env (Inl e) = ([], Inl x))
      \<and> (import_tkinter env = None \<and> import_messagebox env = None \<and> tk_Tk env = Some x \<longrightarrow>
           run_dirac_fourier_gui env (Inl e) = ([], Inl x))
      \<and> (import_tkinter env = None \<and> import_messagebox env = None \<and> tk_Tk env = None
           \<and> root_withdraw env = Some x \<longrightarrow>
           run_dirac_fourier_gui env (Inl e) = ([Tk], Inl x))
      \<and> (import_tkinter env = None \<and> import_messagebox env = None \<and> tk_Tk env = None
           \<and> root_withdraw env = None \<and> messagebox_showerror env = Some x \<longrightarrow>
           run_dirac_fourier_gui env (Inl e) = ([Tk, Withdraw], Inl x))
      \<and> (import_tkinter env = None \<and> import_messagebox env = None \<and> tk_Tk env = None
           \<and> root_withdraw env = None \<and> messagebox_showerror env = None \<longrightarrow>
           run_dirac_fourier_gui env (Inl e) =
             ([Tk, Withdraw,
               ShowError ''Error''
                 (''An error occurred: '' @ str_of e
                    @ [CHR 0x0A, CHR 0x0A] @ ''Please report this issue.'')],
              Inl e)))
   \<and> (\<not> is_Exception e \<longrightarrow> run_dirac_fourier_gui env (Inl e) = ([], Inl e))
   \<and> run_dirac_fourier_gui env (Inr u) = ([], Inr u)
   \<and> run_fourier_limit outcome = ([], outcome)"
  by (simp add: run_dirac_fourier_gui_def except_handler_def error_dialog_def run_fourier_limit_def)

theorem run_scripts_error_handling_witness:
  "is_Exception (PyException True ''boom'')
   \<and> run_dirac_fourier_gui
        \<lparr>import_tkinter = None, import_messagebox = None, tk_Tk = None,
         root_withdraw = None, messagebox_showerror = None\<rparr>
        (Inl (PyException True ''boom'')) =
        ([Tk, Withdraw,
          ShowError ''Error''
            (''An error occurred: boom'' @ [CHR 0x0A, CHR 0x0A] @ ''Please report this issue.'')],
         Inl (PyException True ''boom''))
   \<and> run_dirac_fourier_gui
        \<lparr>import_tkinter = Some (PyException True ''No module named tkinter''),
         import_messagebox = None, tk_Tk = None,
         root_withdraw = None, messagebox_showerror = None\<rparr>
        (Inl (PyException True ''boom'')) =
        ([], Inl (PyException True ''No module named tkinter''))
   \<and> run_dirac_fourier_gui
        \<lparr>import_tkinter = None, import_messagebox = None, tk_Tk = None,
         root_withdraw = None,
         messagebox_showerror = Some (PyException True ''no display'')\<rparr>
        (Inl (PyException True ''boom'')) =
        ([Tk, Withdraw], Inl (PyException True ''no display''))
   \<and> \<not> is_Exception (PyException False [])
   \<and> run_dirac_fourier_gui
        \<lparr>import_tkinter = None, import_messagebox = None, tk_Tk = None,
         root_withdraw = None, messagebox_showerror = None\<rparr>
        (Inl (PyException False [])) = ([], Inl (PyException False []))
   \<and> run_fourier_limit (Inl (PyException True ''boom'')) = ([], Inl (PyException True ''boom''))"
  using run_scripts_error_handling [where e = "PyException True ''boom''"
      and env = "\<lparr>import_tkinter = None, import_messagebox = None, tk_Tk = None,
         root_withdraw = None, messagebox_showerror = None\<rparr>"
      and outcome = "Inl (PyException True ''boom'')"]
    run_scripts_error_handling [where e = "PyException True ''boom''"
      and env = "\<lparr>import_tkinter = Some (PyException True ''No module named tkinter''),
         import_messagebox = None, tk_Tk = None,
         root_withdraw = None, messagebox_showerror = None\<rparr>"
      and x = "PyException True ''No module named tkinter''"]
    run_scripts_error_handling [where e = "PyException True ''boom''"
      and env = "\<lparr>import_tkinter = None, import_messagebox = None, tk_Tk = None,
         root_withdraw = None,
         messagebox_showerror = Some (PyException True ''no display'')\<rparr>"
      and x = "PyException True ''no display''"]
    run_scripts_error_handling [where e = "PyException False []"
      and env = "\<lparr>import_tkinter = None, import_messagebox = None, tk_Tk = None,
         root_withdraw = None, messagebox_showerror = None\<rparr>"]
  by simp

text \<open>
  The claim as written, for any exception, fails at a \<open>KeyboardInterrupt\<close> raised in
  \<open>main()\<close>, whose \<open>str\<close> is empty: the handler does not catch it and no dialog is shown.
\<close>

theorem run_dirac_fourier_gui_counterexample:
  "fst (run_dirac_fourier_gui
          \<lparr>import_tkinter = None, import_messagebox = None, tk_Tk = None,
           root_withdraw = None, messagebox_showerror = None\<rparr>
          (Inl (PyException False []))) = []"
  by (simp add: run_dirac_fourier_gui_def)


text \<open>
  C10. When the play button is clicked while no animation is active and the slider
  value is at or below the minimum width \<open>0.001\<close>, the frame sequence does not start
  from the slider value: it is the 100 values from the maximum width \<open>2.0\<close> down to
  \<open>0.001\<close>, spaced linearly in the exponent of 10.
\<close>

theorem play_clicked_at_minimum:
  assumes "\<not> animation_active s"
    and "slider_val s \<le> 1 / 1000"
  shows "\<exists>frames. animation_frames (play_clicked s) = Some frames
           \<and> length frames = 100
           \<and> frames = map (\<lambda>k. 10 powr (log 10 2
                          + real k * ((log 10 (1 / 1000) - log 10 2) / 99))) [0..<100]
           \<and> frames ! 0 = 2
           \<and> frames ! 99 = 1 / 1000
           \<and> frames ! 0 \<noteq> slider_val s"
proof -
  let ?fr = "np_logspace (np_log10 2) (np_log10 min_width) 100"
  have two: "(1 / 1000 :: real) < 2" by simp
  have "animation_frames (play_clicked s) = Some ?fr"
    using play_clicked_start [OF assms(1)] assms(2) by (simp add: min_width_def max_width_def)
  moreover have "?fr ! 0 \<noteq> slider_val s"
    using logspace_frames(3) [OF two] assms(2) by simp
  ultimately show ?thesis
    using logspace_frames(1-4) [OF two] by blast
qed

theorem play_clicked_at_minimum_witness:
  "\<not> animation_active \<lparr>slider_val = 1 / 1000, button_label = ''Play Animation'',
        animation_active = False, animation_timer = None, animation_frames = None,
        current_frame = 0\<rparr>
   \<and> (1 / 1000 :: real) \<le> 1 / 1000
   \<and> (\<exists>frames. animation_frames (play_clicked \<lparr>slider_val = 1 / 1000,
          button_label = ''Play Animation'', animation_active = False,
          animation_timer = None, animation_frames = None, current_frame = 0\<rparr>) = Some frames
        \<and> length frames = 100 \<and> frames ! 0 = 2 \<and> frames ! 99 = 1 / 1000)"
  using play_clicked_at_minimum [of "\<lparr>slider_val = 1 / 1000, button_label = ''Play Animation'',
        animation_active = False, animation_timer = None, animation_frames = None,
        current_frame = 0\<rparr>"]
  by auto

end
